theory Spec2Isabelle
  imports Main "HOL-Library.Multiset"
begin

section \<open>Python exceptions\<close>

text \<open>
  The exceptions the two games can raise.  \<open>KeyError\<close>: a card value missing from the
  \<open>card_values\<close> dictionary.  \<open>IndexError\<close>: an index into an empty list (or out of range).
  \<open>EOFError\<close>: \<open>input()\<close> at the end of the input.  \<open>SupplyExhausted\<close>: the deck of the
  \<open>cards\<close> module has no card left.
\<close>

datatype error = KeyError | IndexError | EOFError | SupplyExhausted

section \<open>Blackjack (src/Blackjack/blackjack.py)\<close>

subsection \<open>Card and Hand\<close>

text \<open>
  Class \<open>Card\<close>: the attributes \<open>value\<close>, \<open>suit\<close> and \<open>code\<close>, all strings
  (\<open>value\<close> is written \<open>cvalue\<close>, the word being taken in Isabelle).
\<close>

record Card =
  cvalue :: string
  suit :: string
  code :: string

text \<open>Class \<open>Hand\<close>; Python integers are unbounded, so \<open>score\<close> and \<open>aces\<close> are \<open>int\<close>.\<close>

record Hand =
  score :: int
  cards :: "Card list"
  aces :: int

text \<open>\<open>Hand.__init__\<close>\<close>

definition Hand_init :: Hand where
  "Hand_init = \<lparr>score = 0, cards = [], aces = 0\<rparr>"

text \<open>The dictionary \<open>card_values\<close> of \<open>add_card\<close>.\<close>

definition card_values :: "string \<rightharpoonup> int" where
  "card_values = map_of
     [(''2'', 2), (''3'', 3), (''4'', 4), (''5'', 5), (''6'', 6), (''7'', 7), (''8'', 8),
      (''9'', 9), (''10'', 10), (''JACK'', 10), (''QUEEN'', 10), (''KING'', 10), (''ACE'', 11)]"

text \<open>
  The loop at the end of \<open>add_card\<close>:
  \<^verbatim>\<open>while self.score > 21 and self.aces > 0: self.score -= 10; self.aces -= 1\<close>
\<close>

function soften_aces :: "Hand \<Rightarrow> Hand" where
  "soften_aces h =
     (if score h > 21 \<and> aces h > 0
      then soften_aces (h\<lparr>score := score h - 10, aces := aces h - 1\<rparr>)
      else h)"
  by pat_completeness auto
termination
  by (relation "measure (\<lambda>h. nat (aces h))") auto

declare soften_aces.simps [simp del]

text \<open>
  \<open>Hand.add_card\<close>.  The lookup \<open>card_values[card.value]\<close> raises \<open>KeyError\<close> on an unknown
  value; the value is then not \<open>"ACE"\<close>, so nothing has been changed when it is raised.
\<close>

definition add_card :: "Hand \<Rightarrow> Card \<Rightarrow> error + Hand" where
  "add_card h c =
     (let h1 = (if cvalue c = ''ACE'' then h\<lparr>aces := aces h + 1\<rparr> else h) in
      case card_values (cvalue c) of
        None \<Rightarrow> Inl KeyError
      | Some v \<Rightarrow> Inr (soften_aces (h1\<lparr>score := score h1 + v, cards := cards h1 @ [c]\<rparr>)))"

text \<open>A sequence of \<open>add_card\<close> calls on one hand, stopping at the first exception.\<close>

fun add_cards :: "Hand \<Rightarrow> Card list \<Rightarrow> error + Hand" where
  "add_cards h [] = Inr h"
| "add_cards h (c # cs) =
     (case add_card h c of Inl e \<Rightarrow> Inl e | Inr h' \<Rightarrow> add_cards h' cs)"

subsection \<open>Deck\<close>

text \<open>
  Class \<open>Deck\<close> is a remote deck behind a web service.  It is modelled by the list of the
  cards the service hands out, in the order of the successive \<open>draw\<close> calls (so after the
  shuffle that \<open>BlackjackController.__init__\<close> asks for).  When no card is left the service
  answers with an empty \<open>cards\<close> list, and \<open>result["cards"][0]\<close> raises \<open>IndexError\<close>.
\<close>

definition draw :: "Card list \<Rightarrow> error + (Card \<times> Card list)" where
  "draw deck = (case deck of [] \<Rightarrow> Inl IndexError | c # rest \<Rightarrow> Inr (c, rest))"

subsection \<open>BlackjackView.ask_next_move\<close>

text \<open>
  The player's keyboard is the list of the lines that \<open>input()\<close> returns, taken as ASCII.
  \<open>str.upper\<close> on ASCII letters:
\<close>

definition upper_char :: "char \<Rightarrow> char" where
  "upper_char c =
     (let n = (of_char c :: nat) in if 97 \<le> n \<and> n \<le> 122 then char_of (n - 32) else c)"

definition upper :: "string \<Rightarrow> string" where
  "upper s = map upper_char s"

text \<open>
  \<open>ask_next_move\<close>: read lines until one is \<open>H\<close> or \<open>S\<close> in upper case, and return it in
  upper case together with the lines not yet read.  \<open>input()\<close> raises \<open>EOFError\<close> when no
  line is left.
\<close>

fun ask_next_move :: "string list \<Rightarrow> error + (string \<times> string list)" where
  "ask_next_move [] = Inl EOFError"
| "ask_next_move (action # rest) =
     (if upper action \<in> set [''H'', ''S''] then Inr (upper action, rest)
      else ask_next_move rest)"

subsection \<open>BlackjackController\<close>

text \<open>
  \<open>draw_first_cards\<close>: twice, a card for the player and then a card for the dealer.
  \<open>deal_round\<close> is one pass of the \<open>for\<close> loop.
\<close>

definition deal_round :: "Hand \<Rightarrow> Hand \<Rightarrow> Card list \<Rightarrow> error + (Hand \<times> Hand \<times> Card list)" where
  "deal_round player dealer deck =
     (case draw deck of Inl e \<Rightarrow> Inl e | Inr (c1, deck1) \<Rightarrow>
      case add_card player c1 of Inl e \<Rightarrow> Inl e | Inr player' \<Rightarrow>
      case draw deck1 of Inl e \<Rightarrow> Inl e | Inr (c2, deck2) \<Rightarrow>
      case add_card dealer c2 of Inl e \<Rightarrow> Inl e | Inr dealer' \<Rightarrow>
      Inr (player', dealer', deck2))"

definition draw_first_cards :: "Hand \<Rightarrow> Hand \<Rightarrow> Card list \<Rightarrow> error + (Hand \<times> Hand \<times> Card list)" where
  "draw_first_cards player dealer deck =
     (case deal_round player dealer deck of Inl e \<Rightarrow> Inl e | Inr (player1, dealer1, deck1) \<Rightarrow>
      deal_round player1 dealer1 deck1)"

text \<open>
  \<open>player_moves\<close>:
  \<^verbatim>\<open>while self.player_hand.score < 21 and view.ask_next_move(self.state) == "H":
      self.player_hand.add_card(deck.draw())\<close>
  The view is asked only when the score is below 21.  The result is the player's hand, the
  deck and the input lines that are left.
\<close>

function player_moves ::
  "Hand \<Rightarrow> Card list \<Rightarrow> string list \<Rightarrow> error + (Hand \<times> Card list \<times> string list)" where
  "player_moves player deck ins =
     (if score player < 21 then
        (case ask_next_move ins of Inl e \<Rightarrow> Inl e | Inr (a, ins') \<Rightarrow>
           if a = ''H'' then
             (case draw deck of Inl e \<Rightarrow> Inl e | Inr (c, deck') \<Rightarrow>
              case add_card player c of Inl e \<Rightarrow> Inl e | Inr player' \<Rightarrow>
              player_moves player' deck' ins')
           else Inr (player, deck, ins'))
      else Inr (player, deck, ins))"
  by pat_completeness auto
termination
proof (relation "measure (\<lambda>(player, deck, ins). length ins)")
  show "wf (measure (\<lambda>(player, deck, ins). length ins))"
    by simp
next
  fix player :: Hand and deck deck' :: "Card list" and ins ins' :: "string list"
    and answer a c and player' :: Hand
  assume ask: "ask_next_move ins = Inr answer" "(a, ins') = answer"
  have shorter: "ask_next_move xs = Inr (b, ys) \<Longrightarrow> length ys < length xs" for xs b ys
    by (induction xs) (auto split: if_splits)
  from ask have "length ins' < length ins"
    by (auto dest: shorter)
  then show "((player', deck', ins'), (player, deck, ins))
      \<in> measure (\<lambda>(player, deck, ins). length ins)"
    by simp
qed

declare player_moves.simps [simp del]

text \<open>
  \<open>dealer_moves\<close>:
  \<^verbatim>\<open>while self.dealer_hand.score < self.player_hand.score:
      self.dealer_hand.add_card(deck.draw())\<close>
  Every pass takes a card from the deck, so the recursion is on the deck.
\<close>

fun dealer_moves :: "Hand \<Rightarrow> Hand \<Rightarrow> Card list \<Rightarrow> error + (Hand \<times> Card list)" where
  "dealer_moves dealer player [] =
     (if score dealer < score player then Inl IndexError else Inr (dealer, []))"
| "dealer_moves dealer player (c # deck') =
     (if score dealer < score player then
        (case add_card dealer c of Inl e \<Rightarrow> Inl e | Inr dealer' \<Rightarrow>
         dealer_moves dealer' player deck')
      else Inr (dealer, c # deck'))"

text \<open>
  What the controller tells the view: \<open>view.player_won\<close>, \<open>view.player_lost\<close>, or neither
  (\<open>__init__\<close> ends without a call).
\<close>

datatype outcome = PLAYER_WON | PLAYER_LOST | NO_VERDICT

text \<open>
  The end of a round: the verdict, \<open>self.state\<close> (both hands), and what is left of the
  deck and of the input lines.
\<close>

record round =
  verdict :: outcome
  player_hand :: Hand
  dealer_hand :: Hand
  deck_left :: "Card list"
  input_left :: "string list"

text \<open>\<open>BlackjackController.__init__\<close>, on the deck as the draws will find it.\<close>

definition BlackjackController :: "Card list \<Rightarrow> string list \<Rightarrow> error + round" where
  "BlackjackController deck ins =
     (case draw_first_cards Hand_init Hand_init deck of Inl e \<Rightarrow> Inl e
      | Inr (player, dealer, deck1) \<Rightarrow>
        if score player = 21 then
          Inr \<lparr>verdict = PLAYER_WON, player_hand = player, dealer_hand = dealer,
               deck_left = deck1, input_left = ins\<rparr>
        else
          (case player_moves player deck1 ins of Inl e \<Rightarrow> Inl e
           | Inr (player2, deck2, ins2) \<Rightarrow>
             if score player2 = 21 then
               Inr \<lparr>verdict = PLAYER_WON, player_hand = player2, dealer_hand = dealer,
                    deck_left = deck2, input_left = ins2\<rparr>
             else if score player2 > 21 \<or> score dealer = 21 then
               Inr \<lparr>verdict = PLAYER_LOST, player_hand = player2, dealer_hand = dealer,
                    deck_left = deck2, input_left = ins2\<rparr>
             else
               (case dealer_moves dealer player2 deck2 of Inl e \<Rightarrow> Inl e
                | Inr (dealer3, deck3) \<Rightarrow>
                  if score dealer3 > 22 then
                    Inr \<lparr>verdict = PLAYER_WON, player_hand = player2, dealer_hand = dealer3,
                         deck_left = deck3, input_left = ins2\<rparr>
                  else if score dealer3 > score player2 then
                    Inr \<lparr>verdict = PLAYER_LOST, player_hand = player2, dealer_hand = dealer3,
                         deck_left = deck3, input_left = ins2\<rparr>
                  else
                    Inr \<lparr>verdict = NO_VERDICT, player_hand = player2, dealer_hand = dealer3,
                         deck_left = deck3, input_left = ins2\<rparr>)))"

section \<open>Golf Solitaire (src/Solitaire/solitaire.py)\<close>

subsection \<open>The cards module\<close>

text \<open>
  Modelled from the spec: the module \<open>cards\<close> (classes \<open>Card\<close> and \<open>Deck\<close>) is imported by
  solitaire.py and is not among the sources.  A card is an immutable value with a rank and a
  suit; the rank is a number, Ace 1, Jack 11, Queen 12, King 13, as \<open>can_move\<close> reads it
  ("Ace is only adjacent to 2. King is only adjacent to Queen").  Two cards are equal when
  they are the same value.
\<close>

record PlayingCard =
  rank :: int
  psuit :: string

text \<open>
  Modelled from the spec: the deck of the \<open>cards\<close> module is the sequence of the cards still
  to be dealt, in the order \<open>Deck.shuffle_deck\<close> left them; \<open>deal_card\<close> removes and returns
  the next card, and fails with \<open>SupplyExhausted\<close> when none remains.
\<close>

definition deal_card :: "PlayingCard list \<Rightarrow> error + (PlayingCard \<times> PlayingCard list)" where
  "deal_card deck = (case deck of [] \<Rightarrow> Inl SupplyExhausted | c # rest \<Rightarrow> Inr (c, rest))"

subsection \<open>The game state\<close>

text \<open>The attributes of a \<open>Solitaire\<close> object.\<close>

record Solitaire =
  deck :: "PlayingCard list"
  tableau :: "PlayingCard list list"
  stock :: "PlayingCard list"
  waste :: "PlayingCard list"

text \<open>
  \<open>deal_into pile n deck\<close>: \<open>n\<close> passes of a loop \<open>pile.append(self.deck.deal_card())\<close>.
\<close>

fun deal_into ::
  "PlayingCard list \<Rightarrow> nat \<Rightarrow> PlayingCard list \<Rightarrow> error + (PlayingCard list \<times> PlayingCard list)" where
  "deal_into pile 0 d = Inr (pile, d)"
| "deal_into pile (Suc n) d =
     (case deal_card d of Inl e \<Rightarrow> Inl e | Inr (c, d') \<Rightarrow> deal_into (pile @ [c]) n d')"

text \<open>
  The outer loop of \<open>__init__\<close>: one new column of \<open>cards_in_column\<close> cards per pass,
  appended to the tableau.
\<close>

fun deal_columns ::
  "PlayingCard list list \<Rightarrow> nat \<Rightarrow> nat \<Rightarrow> PlayingCard list
     \<Rightarrow> error + (PlayingCard list list \<times> PlayingCard list)" where
  "deal_columns tab 0 cards_in_column d = Inr (tab, d)"
| "deal_columns tab (Suc n) cards_in_column d =
     (case deal_into [] cards_in_column d of Inl e \<Rightarrow> Inl e
      | Inr (column, d') \<Rightarrow> deal_columns (tab @ [column]) n cards_in_column d')"

text \<open>
  \<open>Solitaire.__init__\<close>, with the class attributes \<open>columns\<close> and \<open>cards_in_column\<close> as
  parameters and the shuffled deck as the third.  \<open>range(51 - columns * cards_in_column)\<close>
  is empty when the number is negative.
\<close>

definition Solitaire_init :: "nat \<Rightarrow> nat \<Rightarrow> PlayingCard list \<Rightarrow> error + Solitaire" where
  "Solitaire_init columns cards_in_column d =
     (case deal_columns [] columns cards_in_column d of Inl e \<Rightarrow> Inl e
      | Inr (tab, d1) \<Rightarrow>
        case deal_card d1 of Inl e \<Rightarrow> Inl e
        | Inr (w, d2) \<Rightarrow>
          case deal_into [] (nat (51 - int columns * int cards_in_column)) d2 of Inl e \<Rightarrow> Inl e
          | Inr (st, d3) \<Rightarrow> Inr \<lparr>deck = d3, tableau = tab, stock = st, waste = [w]\<rparr>)"

text \<open>The class attributes as the source sets them: \<open>columns = 7\<close>, \<open>cards_in_column = 1\<close>.\<close>

definition columns :: nat where
  "columns = 7"

definition cards_in_column :: nat where
  "cards_in_column = 1"

subsection \<open>The operations\<close>

text \<open>
  The loop of \<open>can_move\<close> over the columns.  The condition is evaluated from the left:
  \<open>self.waste[-1]\<close> is read only for a non-empty column whose last card is \<open>card\<close>, and
  raises \<open>IndexError\<close> on an empty waste pile.
\<close>

fun can_move_loop :: "PlayingCard list \<Rightarrow> PlayingCard \<Rightarrow> PlayingCard list list \<Rightarrow> error + bool" where
  "can_move_loop w c [] = Inr False"
| "can_move_loop w c (column # rest) =
     (if length column > 0 \<and> last column = c then
        (if w = [] then Inl IndexError
         else if \<bar>rank (last w) - rank c\<bar> = 1 then Inr True
         else can_move_loop w c rest)
      else can_move_loop w c rest)"

definition can_move :: "Solitaire \<Rightarrow> PlayingCard \<Rightarrow> error + bool" where
  "can_move s c = can_move_loop (waste s) c (tableau s)"

text \<open>
  Python's list index: a negative index counts from the end, and an index out of range
  raises \<open>IndexError\<close>.
\<close>

definition py_index :: "'a list \<Rightarrow> int \<Rightarrow> error + nat" where
  "py_index xs i =
     (let n = int (length xs); j = (if i < 0 then n + i else i) in
      if 0 \<le> j \<and> j < n then Inr (nat j) else Inl IndexError)"

text \<open>
  \<open>move_card\<close>: \<open>self.waste.append(self.tableau[col][-1]); del self.tableau[col][-1]\<close>.
  Both indexings are done before the append, so an exception leaves the game as it was.
\<close>

definition move_card :: "Solitaire \<Rightarrow> int \<Rightarrow> error + Solitaire" where
  "move_card s col =
     (case py_index (tableau s) col of Inl e \<Rightarrow> Inl e
      | Inr i \<Rightarrow>
        let column = tableau s ! i in
        if column = [] then Inl IndexError
        else Inr (s\<lparr>waste := waste s @ [last column],
                    tableau := (tableau s)[i := butlast column]\<rparr>))"

text \<open>\<open>deal_from_stock\<close>\<close>

definition deal_from_stock :: "Solitaire \<Rightarrow> Solitaire" where
  "deal_from_stock s =
     (if stock s \<noteq> [] then s\<lparr>waste := waste s @ [last (stock s)], stock := butlast (stock s)\<rparr>
      else s)"

text \<open>\<open>has_won\<close>: the loop over the columns.\<close>

fun has_won_loop :: "PlayingCard list list \<Rightarrow> bool" where
  "has_won_loop [] = True"
| "has_won_loop (element # rest) = (if length element > 0 then False else has_won_loop rest)"

definition has_won :: "Solitaire \<Rightarrow> bool" where
  "has_won s = has_won_loop (tableau s)"

text \<open>
  \<open>has_lost\<close>.  The body is one \<open>if not self.stock:\<close> with no \<open>else\<close>: with cards in the
  stock the function reaches its end and returns Python's \<open>None\<close>.  The result is therefore
  a \<open>bool option\<close>, \<open>None\<close> for \<open>None\<close>.
\<close>

fun has_lost_loop :: "Solitaire \<Rightarrow> PlayingCard list list \<Rightarrow> error + bool option" where
  "has_lost_loop s [] = Inr (Some True)"
| "has_lost_loop s (element # rest) =
     (if length element > 0 then
        (case can_move s (last element) of Inl e \<Rightarrow> Inl e
         | Inr b \<Rightarrow> if b then Inr (Some False) else has_lost_loop s rest)
      else has_lost_loop s rest)"

definition has_lost :: "Solitaire \<Rightarrow> error + bool option" where
  "has_lost s = (if stock s = [] then has_lost_loop s (tableau s) else Inr None)"

text \<open>Python's truth value of what \<open>has_lost\<close> returns, as \<open>elif self.has_lost():\<close> reads it.\<close>

definition truthy :: "bool option \<Rightarrow> bool" where
  "truthy r = (case r of None \<Rightarrow> False | Some b \<Rightarrow> b)"

subsection \<open>Sequences of operations\<close>

text \<open>
  The five methods a game is played with.  \<open>can_move\<close>, \<open>has_won\<close> and \<open>has_lost\<close> only
  read the state; an exception of any of them ends the run.
\<close>

datatype operation =
  CanMove PlayingCard | MoveCard int | DealFromStock | HasWon | HasLost

fun apply_operation :: "Solitaire \<Rightarrow> operation \<Rightarrow> error + Solitaire" where
  "apply_operation s (CanMove c) = (case can_move s c of Inl e \<Rightarrow> Inl e | Inr b \<Rightarrow> Inr s)"
| "apply_operation s (MoveCard col) = move_card s col"
| "apply_operation s DealFromStock = Inr (deal_from_stock s)"
| "apply_operation s HasWon = Inr s"
| "apply_operation s HasLost = (case has_lost s of Inl e \<Rightarrow> Inl e | Inr r \<Rightarrow> Inr s)"

fun run :: "Solitaire \<Rightarrow> operation list \<Rightarrow> error + Solitaire" where
  "run s [] = Inr s"
| "run s (op # ops) =
     (case apply_operation s op of Inl e \<Rightarrow> Inl e | Inr s' \<Rightarrow> run s' ops)"

text \<open>All the cards of a game, and how many they are.\<close>

definition all_cards :: "Solitaire \<Rightarrow> PlayingCard list" where
  "all_cards s = concat (tableau s) @ waste s @ stock s"

definition total_cards :: "Solitaire \<Rightarrow> nat" where
  "total_cards s = sum_list (map length (tableau s)) + length (waste s) + length (stock s)"

section \<open>Sample cards\<close>

text \<open>A Blackjack card of a given value, and a Solitaire card of a given rank.\<close>

definition bj :: "string \<Rightarrow> Card" where
  "bj v = \<lparr>cvalue = v, suit = ''SPADES'', code = v\<rparr>"

definition pc :: "int \<Rightarrow> PlayingCard" where
  "pc r = \<lparr>rank = r, psuit = ''SPADES''\<rparr>"

text \<open>A deck of 52 different cards, ranks 1 to 13 in four suits.\<close>

definition deck52 :: "PlayingCard list" where
  "deck52 = map (\<lambda>i. \<lparr>rank = int (i mod 13) + 1, psuit = [''SHDC'' ! (i div 13)]\<rparr>) [0..<52]"

text \<open>A hand written out: its score, the values of its cards, its count of Aces at 11.\<close>

definition hand_of :: "int \<Rightarrow> string list \<Rightarrow> int \<Rightarrow> Hand" where
  "hand_of sc vs a = \<lparr>score = sc, cards = map bj vs, aces = a\<rparr>"

text \<open>
  Three Solitaire positions.  \<open>table7\<close>: the waste pile shows a 7 and the columns show a 6,
  an 8 and a 2 (an 8 lies under the 6, and one column is empty).  \<open>table_king\<close> and
  \<open>table_ace\<close>: King and Ace on the waste pile.
\<close>

definition table7 :: Solitaire where
  "table7 = \<lparr>deck = [], tableau = [[pc 8, pc 6], [pc 8], [], [pc 2]], stock = [pc 4],
      waste = [pc 9, pc 7]\<rparr>"

definition table_king :: Solitaire where
  "table_king = \<lparr>deck = [], tableau = [[pc 1], [pc 12]], stock = [], waste = [pc 13]\<rparr>"

definition table_ace :: Solitaire where
  "table_ace = \<lparr>deck = [], tableau = [[pc 13], [pc 2]], stock = [], waste = [pc 1]\<rparr>"

text \<open>
  The game that \<open>__init__\<close> sets up from \<open>deck52\<close>, and the position after moving the last
  column's card and dealing one card from the stock.
\<close>

definition start52 :: Solitaire where
  "start52 = \<lparr>deck = [], tableau = map (\<lambda>c. [c]) (take 7 deck52), stock = drop 8 deck52,
     waste = [deck52 ! 7]\<rparr>"

definition after52 :: Solitaire where
  "after52 = \<lparr>deck = [], tableau = map (\<lambda>c. [c]) (take 6 deck52) @ [[]],
     stock = butlast (drop 8 deck52), waste = [deck52 ! 7, deck52 ! 6, deck52 ! 51]\<rparr>"

section \<open>Hand: the soft-ace rule\<close>


lemma soften_aces_done:
  "\<not> (score h > 21 \<and> aces h > 0) \<Longrightarrow> soften_aces h = h"
  by (simp add: soften_aces.simps)

lemma soften_aces_step:
  "score h > 21 \<Longrightarrow> aces h > 0 \<Longrightarrow>
   soften_aces h = soften_aces (h\<lparr>score := score h - 10, aces := aces h - 1\<rparr>)"
  by (subst soften_aces.simps) simp

lemma soften_aces_exit: "score (soften_aces h) \<le> 21 \<or> aces (soften_aces h) \<le> 0"
proof (induction h rule: soften_aces.induct)
  case (1 h)
  show ?case
  proof (cases "score h > 21 \<and> aces h > 0")
    case True
    with "1" show ?thesis by (simp add: soften_aces_step)
  next
    case False
    then show ?thesis by (auto simp: soften_aces_done)
  qed
qed

lemma soften_aces_nonneg: "0 \<le> aces h \<Longrightarrow> 0 \<le> aces (soften_aces h)"
proof (induction h rule: soften_aces.induct)
  case (1 h)
  show ?case
  proof (cases "score h > 21 \<and> aces h > 0")
    case True
    with "1" show ?thesis by (simp add: soften_aces_step)
  next
    case False
    with "1.prems" show ?thesis by (simp add: soften_aces_done)
  qed
qed

lemma soften_aces_cards: "cards (soften_aces h) = cards h"
proof (induction h rule: soften_aces.induct)
  case (1 h)
  show ?case
  proof (cases "score h > 21 \<and> aces h > 0")
    case True
    with "1" show ?thesis by (simp add: soften_aces_step)
  next
    case False
    then show ?thesis by (simp add: soften_aces_done)
  qed
qed

text \<open>
  The loop makes some number \<open>k\<close> of downgrades, each of 10 points and one Ace, and nothing
  else.  Before each of them (the \<open>j\<close>-th, counted from 0) the score was above 21 and an Ace
  at 11 was left.
\<close>

lemma soften_aces_count:
  "\<exists>k. 0 \<le> k \<and> score (soften_aces h) = score h - 10 * k \<and> aces (soften_aces h) = aces h - k
     \<and> cards (soften_aces h) = cards h
     \<and> (\<forall>j. 0 \<le> j \<and> j < k \<longrightarrow> 21 < score h - 10 * j \<and> 0 < aces h - j)"
proof (induction h rule: soften_aces.induct)
  case (1 h)
  show ?case
  proof (cases "score h > 21 \<and> aces h > 0")
    case True
    let ?h1 = "h\<lparr>score := score h - 10, aces := aces h - 1\<rparr>"
    from True "1" obtain k where k: "0 \<le> k" "score (soften_aces ?h1) = score ?h1 - 10 * k"
      "aces (soften_aces ?h1) = aces ?h1 - k" "cards (soften_aces ?h1) = cards ?h1"
      and before: "\<And>j. 0 \<le> j \<Longrightarrow> j < k \<Longrightarrow> 21 < score ?h1 - 10 * j \<and> 0 < aces ?h1 - j"
      by blast
    have eq: "soften_aces h = soften_aces ?h1"
      using True by (simp add: soften_aces_step)
    have each: "21 < score h - 10 * j \<and> 0 < aces h - j" if "0 \<le> j" "j < k + 1" for j
    proof (cases "j = 0")
      case True
      with \<open>score h > 21 \<and> aces h > 0\<close> show ?thesis by simp
    next
      case False
      with that have "0 \<le> j - 1" "j - 1 < k" by simp_all
      from before [OF this] show ?thesis by simp
    qed
    have "0 \<le> k + 1 \<and> score (soften_aces h) = score h - 10 * (k + 1)
        \<and> aces (soften_aces h) = aces h - (k + 1) \<and> cards (soften_aces h) = cards h"
      using k unfolding eq by simp
    with each show ?thesis by blast
  next
    case False
    then have "soften_aces h = h"
      by (simp add: soften_aces_done)
    then have "0 \<le> (0::int) \<and> score (soften_aces h) = score h - 10 * 0
        \<and> aces (soften_aces h) = aces h - 0 \<and> cards (soften_aces h) = cards h
        \<and> (\<forall>j. 0 \<le> j \<and> j < (0::int) \<longrightarrow> 21 < score h - 10 * j \<and> 0 < aces h - j)"
      by simp
    then show ?thesis by blast
  qed
qed

text \<open>The same for one \<open>add_card\<close>: the card's value is added first, an Ace is counted.\<close>

lemma add_card_count:
  assumes "add_card h c = Inr h'"
  shows "\<exists>v k. card_values (cvalue c) = Some v \<and> 0 \<le> k
    \<and> score h' = score h + v - 10 * k
    \<and> aces h' = aces h + (if cvalue c = ''ACE'' then 1 else 0) - k
    \<and> cards h' = cards h @ [c]
    \<and> (\<forall>j. 0 \<le> j \<and> j < k \<longrightarrow>
          21 < score h + v - 10 * j \<and> 0 < aces h + (if cvalue c = ''ACE'' then 1 else 0) - j)"
proof -
  from assms obtain v where v: "card_values (cvalue c) = Some v"
    by (auto simp: add_card_def Let_def split: option.splits)
  define a :: int where "a = (if cvalue c = ''ACE'' then 1 else 0)"
  define h0 where "h0 = h\<lparr>aces := aces h + a, score := score h + v, cards := cards h @ [c]\<rparr>"
  from assms v have h': "h' = soften_aces h0"
    by (auto simp: add_card_def Let_def h0_def a_def)
  from soften_aces_count [of h0] obtain k where
    "0 \<le> k" "score h' = score h0 - 10 * k" "aces h' = aces h0 - k" "cards h' = cards h0"
    "\<forall>j. 0 \<le> j \<and> j < k \<longrightarrow> 21 < score h0 - 10 * j \<and> 0 < aces h0 - j"
    unfolding h' by blast
  then have "0 \<le> k \<and> score h' = score h + v - 10 * k \<and> aces h' = aces h + a - k
    \<and> cards h' = cards h @ [c]
    \<and> (\<forall>j. 0 \<le> j \<and> j < k \<longrightarrow> 21 < score h + v - 10 * j \<and> 0 < aces h + a - j)"
    by (simp add: h0_def)
  with v show ?thesis
    unfolding a_def by blast
qed

lemma add_card_exit:
  "add_card h c = Inr h' \<Longrightarrow> score h' \<le> 21 \<or> aces h' \<le> 0"
  using soften_aces_exit
  by (auto simp: add_card_def Let_def split: option.splits if_splits)

lemma add_card_nonneg:
  "0 \<le> aces h \<Longrightarrow> add_card h c = Inr h' \<Longrightarrow> 0 \<le> aces h'"
  by (auto simp: add_card_def Let_def soften_aces_nonneg split: option.splits if_splits)

lemma add_cards_nonneg:
  "0 \<le> aces h \<Longrightarrow> add_cards h cs = Inr h' \<Longrightarrow> 0 \<le> aces h'"
proof (induction cs arbitrary: h)
  case Nil
  then show ?case by simp
next
  case (Cons c cs)
  then show ?case
    by (auto split: sum.splits dest: add_card_nonneg)
qed

lemma add_cards_snoc:
  "add_cards h (cs @ [c]) = (case add_cards h cs of Inl e \<Rightarrow> Inl e | Inr h1 \<Rightarrow> add_card h1 c)"
  by (induction cs arbitrary: h) (auto split: sum.splits)

text \<open>
  Claim C1.  Start from any hand whose count of Aces at 11 is not negative (the empty hand of
  \<open>Hand.__init__\<close> is one) and add any non-empty sequence of cards.  After the last
  \<open>add_card\<close>, so after each one, the score is at most 21 or no Ace is still counted
  as 11.  And the last \<open>add_card\<close> did this and nothing else to the hand \<open>h1\<close> it found:
  it added the card and its value \<open>v\<close>, counted the card if it is an Ace, and then made \<open>k\<close>
  downgrades of 10 points and one Ace each, every one of them from a score above 21 with an
  Ace at 11 left.  With the first line this fixes \<open>k\<close>: the downgrades go on until the
  score is at most 21 or no Ace at 11 is left.
\<close>

theorem add_card_soft_ace_invariant:
  assumes "0 \<le> aces h" and "cs \<noteq> []" and "add_cards h cs = Inr h'"
  shows "(score h' \<le> 21 \<or> aces h' = 0) \<and> 0 \<le> aces h'
    \<and> (\<exists>h1 v k. add_cards h (butlast cs) = Inr h1 \<and> add_card h1 (last cs) = Inr h'
          \<and> 0 \<le> aces h1
          \<and> card_values (cvalue (last cs)) = Some v \<and> 0 \<le> k
          \<and> score h' = score h1 + v - 10 * k
          \<and> aces h' = aces h1 + (if cvalue (last cs) = ''ACE'' then 1 else 0) - k
          \<and> cards h' = cards h1 @ [last cs]
          \<and> (\<forall>j. 0 \<le> j \<and> j < k \<longrightarrow>
                21 < score h1 + v - 10 * j
                \<and> 0 < aces h1 + (if cvalue (last cs) = ''ACE'' then 1 else 0) - j))"
proof -
  from \<open>cs \<noteq> []\<close> have cs: "cs = butlast cs @ [last cs]"
    by simp
  with assms(3) have "add_cards h (butlast cs @ [last cs]) = Inr h'"
    by simp
  then obtain h1 where h1: "add_cards h (butlast cs) = Inr h1" "add_card h1 (last cs) = Inr h'"
    by (auto simp: add_cards_snoc split: sum.splits)
  from h1(2) have "score h' \<le> 21 \<or> aces h' \<le> 0"
    by (rule add_card_exit)
  moreover from assms(1,3) have nonneg: "0 \<le> aces h'"
    by (rule add_cards_nonneg)
  ultimately have exit: "score h' \<le> 21 \<or> aces h' = 0"
    by auto
  from assms(1) h1(1) have "0 \<le> aces h1"
    by (rule add_cards_nonneg)
  with add_card_count [OF h1(2)] h1 have "\<exists>h1 v k. add_cards h (butlast cs) = Inr h1
      \<and> add_card h1 (last cs) = Inr h' \<and> 0 \<le> aces h1
      \<and> card_values (cvalue (last cs)) = Some v \<and> 0 \<le> k
      \<and> score h' = score h1 + v - 10 * k
      \<and> aces h' = aces h1 + (if cvalue (last cs) = ''ACE'' then 1 else 0) - k
      \<and> cards h' = cards h1 @ [last cs]
      \<and> (\<forall>j. 0 \<le> j \<and> j < k \<longrightarrow>
            21 < score h1 + v - 10 * j
            \<and> 0 < aces h1 + (if cvalue (last cs) = ''ACE'' then 1 else 0) - j)"
    by blast
  with exit nonneg show ?thesis
    by blast
qed

lemma hand_ace_ace_9_king:
  "add_cards Hand_init (map bj [''ACE'', ''ACE'', ''9'', ''KING''])
     = Inr (hand_of 21 [''ACE'', ''ACE'', ''9'', ''KING''] 0)"
  "add_cards Hand_init (butlast (map bj [''ACE'', ''ACE'', ''9'', ''KING'']))
     = Inr (hand_of 21 [''ACE'', ''ACE'', ''9''] 1)"
  "add_card (hand_of 21 [''ACE'', ''ACE'', ''9''] 1) (last (map bj [''ACE'', ''ACE'', ''9'', ''KING'']))
     = Inr (hand_of 21 [''ACE'', ''ACE'', ''9'', ''KING''] 0)"
  by (simp_all add: Hand_init_def hand_of_def bj_def add_card_def card_values_def
      soften_aces.simps)

lemma hand_three_kings:
  "add_cards Hand_init (map bj [''KING'', ''KING'', ''KING''])
     = Inr (hand_of 30 [''KING'', ''KING'', ''KING''] 0)"
  "add_cards Hand_init (butlast (map bj [''KING'', ''KING'', ''KING'']))
     = Inr (hand_of 20 [''KING'', ''KING''] 0)"
  by (simp_all add: Hand_init_def hand_of_def bj_def add_card_def card_values_def
      soften_aces.simps)

theorem add_card_soft_ace_invariant_witness:
  "0 \<le> aces Hand_init
   \<and> map bj [''ACE'', ''ACE'', ''9'', ''KING''] \<noteq> []
   \<and> add_cards Hand_init (map bj [''ACE'', ''ACE'', ''9'', ''KING''])
       = Inr (hand_of 21 [''ACE'', ''ACE'', ''9'', ''KING''] 0)
   \<and> (score (hand_of 21 [''ACE'', ''ACE'', ''9'', ''KING''] 0) \<le> 21
       \<or> aces (hand_of 21 [''ACE'', ''ACE'', ''9'', ''KING''] 0) = 0)
   \<and> add_cards Hand_init (butlast (map bj [''ACE'', ''ACE'', ''9'', ''KING'']))
       = Inr (hand_of 21 [''ACE'', ''ACE'', ''9''] 1)
   \<and> card_values (cvalue (last (map bj [''ACE'', ''ACE'', ''9'', ''KING'']))) = Some 10
   \<and> score (hand_of 21 [''ACE'', ''ACE'', ''9'', ''KING''] 0)
       = score (hand_of 21 [''ACE'', ''ACE'', ''9''] 1) + 10 - 10 * 1
   \<and> aces (hand_of 21 [''ACE'', ''ACE'', ''9'', ''KING''] 0)
       = aces (hand_of 21 [''ACE'', ''ACE'', ''9''] 1) + 0 - 1
   \<and> 21 < score (hand_of 21 [''ACE'', ''ACE'', ''9''] 1) + 10 - 10 * 0
   \<and> 0 < aces (hand_of 21 [''ACE'', ''ACE'', ''9''] 1) + 0 - 0
   \<and> map bj [''KING'', ''KING'', ''KING''] \<noteq> []
   \<and> add_cards Hand_init (map bj [''KING'', ''KING'', ''KING''])
       = Inr (hand_of 30 [''KING'', ''KING'', ''KING''] 0)
   \<and> (score (hand_of 30 [''KING'', ''KING'', ''KING''] 0) \<le> 21
       \<or> aces (hand_of 30 [''KING'', ''KING'', ''KING''] 0) = 0)
   \<and> add_cards Hand_init (butlast (map bj [''KING'', ''KING'', ''KING'']))
       = Inr (hand_of 20 [''KING'', ''KING''] 0)
   \<and> score (hand_of 30 [''KING'', ''KING'', ''KING''] 0)
       = score (hand_of 20 [''KING'', ''KING''] 0) + 10 - 10 * 0
   \<and> aces (hand_of 30 [''KING'', ''KING'', ''KING''] 0) = 0"
proof -
  have start: "0 \<le> aces Hand_init"
    by (simp add: Hand_init_def)
  have ne: "map bj [''ACE'', ''ACE'', ''9'', ''KING''] \<noteq> []" "map bj [''KING'', ''KING'', ''KING''] \<noteq> []"
    by simp_all
  from add_card_soft_ace_invariant [OF start ne(1) hand_ace_ace_9_king(1)]
  have exit1: "score (hand_of 21 [''ACE'', ''ACE'', ''9'', ''KING''] 0) \<le> 21
      \<or> aces (hand_of 21 [''ACE'', ''ACE'', ''9'', ''KING''] 0) = 0"
    by blast
  from add_card_soft_ace_invariant [OF start ne(2) hand_three_kings(1)]
  have exit2: "score (hand_of 30 [''KING'', ''KING'', ''KING''] 0) \<le> 21
      \<or> aces (hand_of 30 [''KING'', ''KING'', ''KING''] 0) = 0"
    by blast
  have numbers:
    "card_values (cvalue (last (map bj [''ACE'', ''ACE'', ''9'', ''KING'']))) = Some 10"
    "score (hand_of 21 [''ACE'', ''ACE'', ''9'', ''KING''] 0)
       = score (hand_of 21 [''ACE'', ''ACE'', ''9''] 1) + 10 - 10 * 1"
    "aces (hand_of 21 [''ACE'', ''ACE'', ''9'', ''KING''] 0)
       = aces (hand_of 21 [''ACE'', ''ACE'', ''9''] 1) + 0 - 1"
    "21 < score (hand_of 21 [''ACE'', ''ACE'', ''9''] 1) + 10 - 10 * 0"
    "0 < aces (hand_of 21 [''ACE'', ''ACE'', ''9''] 1) + 0 - 0"
    "score (hand_of 30 [''KING'', ''KING'', ''KING''] 0)
       = score (hand_of 20 [''KING'', ''KING''] 0) + 10 - 10 * 0"
    "aces (hand_of 30 [''KING'', ''KING'', ''KING''] 0) = 0"
    by (simp_all add: hand_of_def bj_def card_values_def)
  note facts = start ne exit1 exit2 numbers hand_ace_ace_9_king(1,2) hand_three_kings
  show ?thesis
    by (intro conjI) (rule facts)+
qed

section \<open>Blackjack: the round\<close>

lemma player_moves_at_21:
  "\<not> score player < 21 \<Longrightarrow> player_moves player d ins = Inr (player, d, ins)"
  by (simp add: player_moves.simps)

lemma upper_samples:
  "upper ''h'' = ''H''" "upper ''H'' = ''H''" "upper ''s'' = ''S''" "upper ''S'' = ''S''"
  "upper ''x'' = ''X''"
  by code_simp+

text \<open>
  Claim C8.  While the dealer's score is below the player's, \<open>dealer_moves\<close> draws: with no
  card left the draw raises, and otherwise the card is added and the loop goes on; the dealer
  never stands there.  When the loop ends without an exception, the dealer's score is at least
  the player's.
\<close>

theorem dealer_moves_draws_up_to_player:
  "(score dealer < score player \<longrightarrow>
      dealer_moves dealer player [] = Inl IndexError
      \<and> dealer_moves dealer player (c # rest) =
          (case add_card dealer c of Inl e \<Rightarrow> Inl e
           | Inr dealer1 \<Rightarrow> dealer_moves dealer1 player rest))
   \<and> (dealer_moves dealer player d = Inr (dealer', d') \<longrightarrow> score player \<le> score dealer')"
proof -
  have exit: "dealer_moves dl player cs = Inr (dealer', d') \<Longrightarrow> score player \<le> score dealer'"
    for dl cs
    by (induction dl player cs rule: dealer_moves.induct)
       (auto split: if_splits sum.splits)
  show ?thesis
    using exit [of dealer d] by simp
qed

theorem dealer_moves_draws_up_to_player_witness:
  "score \<lparr>score = 12, cards = [bj ''10'', bj ''2''], aces = 0\<rparr>
     < score \<lparr>score = 19, cards = [bj ''10'', bj ''9''], aces = 0\<rparr>
   \<and> dealer_moves \<lparr>score = 12, cards = [bj ''10'', bj ''2''], aces = 0\<rparr>
        \<lparr>score = 19, cards = [bj ''10'', bj ''9''], aces = 0\<rparr> [bj ''3'', bj ''5'', bj ''4'']
      = Inr (\<lparr>score = 20, cards = [bj ''10'', bj ''2'', bj ''3'', bj ''5''], aces = 0\<rparr>, [bj ''4''])
   \<and> dealer_moves \<lparr>score = 12, cards = [bj ''10'', bj ''2''], aces = 0\<rparr>
        \<lparr>score = 19, cards = [bj ''10'', bj ''9''], aces = 0\<rparr> [] = Inl IndexError
   \<and> score \<lparr>score = 19, cards = [bj ''10'', bj ''9''], aces = 0\<rparr>
       \<le> score \<lparr>score = 20, cards = [bj ''10'', bj ''2'', bj ''3'', bj ''5''], aces = 0\<rparr>"
  using dealer_moves_draws_up_to_player
    [of "\<lparr>score = 12, cards = [bj ''10'', bj ''2''], aces = 0\<rparr>"
        "\<lparr>score = 19, cards = [bj ''10'', bj ''9''], aces = 0\<rparr>"
        "bj ''3''" "[bj ''5'', bj ''4'']" "[bj ''3'', bj ''5'', bj ''4'']"
        "\<lparr>score = 20, cards = [bj ''10'', bj ''2'', bj ''3'', bj ''5''], aces = 0\<rparr>" "[bj ''4'']"]
  by (simp add: bj_def add_card_def card_values_def soften_aces.simps)

text \<open>
  Claim C6.  When the player's score is 21 after the first four cards, the round ends with
  \<open>PLAYER_WON\<close>: the deck is as the four draws left it and no input line has been read, so
  the player was never asked for a move.
\<close>

theorem player_blackjack_wins_at_once:
  assumes "draw_first_cards Hand_init Hand_init d = Inr (player, dealer, d1)"
    and "score player = 21"
  shows "BlackjackController d ins =
    Inr \<lparr>verdict = PLAYER_WON, player_hand = player, dealer_hand = dealer,
         deck_left = d1, input_left = ins\<rparr>"
  using assms by (simp add: BlackjackController_def)

lemma first_cards_ace_king:
  "draw_first_cards Hand_init Hand_init [bj ''ACE'', bj ''7'', bj ''KING'', bj ''QUEEN'', bj ''5'']
   = Inr (\<lparr>score = 21, cards = [bj ''ACE'', bj ''KING''], aces = 1\<rparr>,
        \<lparr>score = 17, cards = [bj ''7'', bj ''QUEEN''], aces = 0\<rparr>, [bj ''5''])"
  by (simp add: draw_first_cards_def deal_round_def draw_def Hand_init_def bj_def add_card_def
      card_values_def soften_aces.simps)

theorem player_blackjack_wins_at_once_witness:
  "draw_first_cards Hand_init Hand_init [bj ''ACE'', bj ''7'', bj ''KING'', bj ''QUEEN'', bj ''5'']
   = Inr (\<lparr>score = 21, cards = [bj ''ACE'', bj ''KING''], aces = 1\<rparr>,
        \<lparr>score = 17, cards = [bj ''7'', bj ''QUEEN''], aces = 0\<rparr>, [bj ''5''])
   \<and> score \<lparr>score = 21, cards = [bj ''ACE'', bj ''KING''], aces = 1\<rparr> = 21
   \<and> BlackjackController [bj ''ACE'', bj ''7'', bj ''KING'', bj ''QUEEN'', bj ''5''] [''h'', ''s'']
      = Inr \<lparr>verdict = PLAYER_WON,
          player_hand = \<lparr>score = 21, cards = [bj ''ACE'', bj ''KING''], aces = 1\<rparr>,
          dealer_hand = \<lparr>score = 17, cards = [bj ''7'', bj ''QUEEN''], aces = 0\<rparr>,
          deck_left = [bj ''5''], input_left = [''h'', ''s'']\<rparr>"
  using player_blackjack_wins_at_once [OF first_cards_ace_king, of "[''h'', ''s'']"]
    first_cards_ace_king
  by simp

text \<open>
  Claim C3.  In a round that reaches the dealer's turn and whose draw loop ends, the verdict is
  \<open>PLAYER_WON\<close> exactly when the dealer's score is above 22; with a dealer at exactly 22 the
  verdict is \<open>PLAYER_LOST\<close>.
\<close>

theorem dealer_bust_above_22:
  assumes "draw_first_cards Hand_init Hand_init d = Inr (player, dealer, d1)"
    and "score player \<noteq> 21"
    and "player_moves player d1 ins = Inr (player2, d2, ins2)"
    and "score player2 \<noteq> 21"
    and "\<not> (score player2 > 21 \<or> score dealer = 21)"
    and "dealer_moves dealer player2 d2 = Inr (dealer3, d3)"
  shows "\<exists>r. BlackjackController d ins = Inr r
    \<and> player_hand r = player2 \<and> dealer_hand r = dealer3
    \<and> (verdict r = PLAYER_WON \<longleftrightarrow> score dealer3 > 22)
    \<and> (score dealer3 = 22 \<longrightarrow> verdict r = PLAYER_LOST)"
  using assms by (auto simp: BlackjackController_def)

text \<open>
  Claim C5, amended.  When after the player's turn the player's score is 22 or more, or it is
  not 21 and the dealer's two cards make exactly 21, the round ends with \<open>PLAYER_LOST\<close> and
  the dealer draws nothing: the deck is as the player's turn left it.
\<close>

theorem player_bust_or_dealer_21_loses:
  assumes "draw_first_cards Hand_init Hand_init d = Inr (player, dealer, d1)"
    and "player_moves player d1 ins = Inr (player2, d2, ins2)"
    and "score player2 \<ge> 22 \<or> (score player2 \<noteq> 21 \<and> score dealer = 21)"
  shows "BlackjackController d ins =
    Inr \<lparr>verdict = PLAYER_LOST, player_hand = player2, dealer_hand = dealer,
         deck_left = d2, input_left = ins2\<rparr>"
proof -
  have "score player \<noteq> 21"
  proof
    assume "score player = 21"
    then have "player_moves player d1 ins = Inr (player, d1, ins)"
      by (simp add: player_moves_at_21)
    with assms(2) \<open>score player = 21\<close> have "score player2 = 21" by simp
    with assms(3) show False by simp
  qed
  with assms show ?thesis
    by (auto simp: BlackjackController_def)
qed

subsection \<open>Sample rounds\<close>

lemmas bj_eval = draw_first_cards_def deal_round_def draw_def Hand_init_def bj_def hand_of_def
  add_card_def card_values_def soften_aces.simps player_moves.simps upper_samples

lemma round_22_first:
  "draw_first_cards Hand_init Hand_init (map bj [''10'', ''10'', ''9'', ''2'', ''KING'', ''4''])
   = Inr (hand_of 19 [''10'', ''9''] 0, hand_of 12 [''10'', ''2''] 0, map bj [''KING'', ''4''])"
  by (simp add: bj_eval)

lemma round_22_player:
  "player_moves (hand_of 19 [''10'', ''9''] 0) (map bj [''KING'', ''4'']) [''x'', ''s'']
   = Inr (hand_of 19 [''10'', ''9''] 0, map bj [''KING'', ''4''], [])"
  by (simp add: bj_eval)

lemma round_22_dealer:
  "dealer_moves (hand_of 12 [''10'', ''2''] 0) (hand_of 19 [''10'', ''9''] 0) (map bj [''KING'', ''4''])
   = Inr (hand_of 22 [''10'', ''2'', ''KING''] 0, map bj [''4''])"
  by (simp add: bj_eval)

theorem dealer_bust_above_22_witness:
  "draw_first_cards Hand_init Hand_init (map bj [''10'', ''10'', ''9'', ''2'', ''KING'', ''4''])
     = Inr (hand_of 19 [''10'', ''9''] 0, hand_of 12 [''10'', ''2''] 0, map bj [''KING'', ''4''])
   \<and> score (hand_of 19 [''10'', ''9''] 0) \<noteq> 21
   \<and> player_moves (hand_of 19 [''10'', ''9''] 0) (map bj [''KING'', ''4'']) [''x'', ''s'']
     = Inr (hand_of 19 [''10'', ''9''] 0, map bj [''KING'', ''4''], [])
   \<and> \<not> (score (hand_of 19 [''10'', ''9''] 0) > 21 \<or> score (hand_of 12 [''10'', ''2''] 0) = 21)
   \<and> dealer_moves (hand_of 12 [''10'', ''2''] 0) (hand_of 19 [''10'', ''9''] 0) (map bj [''KING'', ''4''])
     = Inr (hand_of 22 [''10'', ''2'', ''KING''] 0, map bj [''4''])
   \<and> score (hand_of 22 [''10'', ''2'', ''KING''] 0) = 22
   \<and> (\<exists>r. BlackjackController (map bj [''10'', ''10'', ''9'', ''2'', ''KING'', ''4'']) [''x'', ''s''] = Inr r
        \<and> dealer_hand r = hand_of 22 [''10'', ''2'', ''KING''] 0
        \<and> verdict r \<noteq> PLAYER_WON \<and> verdict r = PLAYER_LOST)"
proof -
  have s1: "score (hand_of 19 [''10'', ''9''] 0) \<noteq> 21"
    and s2: "\<not> (score (hand_of 19 [''10'', ''9''] 0) > 21 \<or> score (hand_of 12 [''10'', ''2''] 0) = 21)"
    and s3: "score (hand_of 22 [''10'', ''2'', ''KING''] 0) = 22"
    by (simp_all add: hand_of_def)
  from dealer_bust_above_22 [OF round_22_first s1 round_22_player s1 s2 round_22_dealer]
  obtain r where
    "BlackjackController (map bj [''10'', ''10'', ''9'', ''2'', ''KING'', ''4'']) [''x'', ''s''] = Inr r"
    "dealer_hand r = hand_of 22 [''10'', ''2'', ''KING''] 0"
    "verdict r = PLAYER_WON \<longleftrightarrow> score (hand_of 22 [''10'', ''2'', ''KING''] 0) > 22"
    "score (hand_of 22 [''10'', ''2'', ''KING''] 0) = 22 \<longrightarrow> verdict r = PLAYER_LOST"
    by blast
  with s3 have "\<exists>r. BlackjackController (map bj [''10'', ''10'', ''9'', ''2'', ''KING'', ''4'']) [''x'', ''s''] = Inr r
        \<and> dealer_hand r = hand_of 22 [''10'', ''2'', ''KING''] 0
        \<and> verdict r \<noteq> PLAYER_WON \<and> verdict r = PLAYER_LOST"
    by auto
  with round_22_first s1 round_22_player s2 round_22_dealer s3 show ?thesis
    by blast
qed


lemma round_21_first:
  "draw_first_cards Hand_init Hand_init (map bj [''5'', ''ACE'', ''6'', ''KING'', ''10'', ''4''])
   = Inr (hand_of 11 [''5'', ''6''] 0, hand_of 21 [''ACE'', ''KING''] 1, map bj [''10'', ''4''])"
  by (simp add: bj_eval)

lemma round_21_hit:
  "player_moves (hand_of 11 [''5'', ''6''] 0) (map bj [''10'', ''4'']) [''h'']
   = Inr (hand_of 21 [''5'', ''6'', ''10''] 0, map bj [''4''], [])"
  by (simp add: bj_eval)

lemma round_21_stand:
  "player_moves (hand_of 11 [''5'', ''6''] 0) (map bj [''10'', ''4'']) [''s'']
   = Inr (hand_of 11 [''5'', ''6''] 0, map bj [''10'', ''4''], [])"
  by (simp add: bj_eval)

text \<open>
  Claim C5 as stated fails: the player holds 5 and 6, the dealer Ace and King (21); the player
  hits a 10 and stands at 21.  The claim's condition holds (the dealer's two cards make 21),
  and the verdict is \<open>PLAYER_WON\<close>, because the test for a player at 21 comes first.
\<close>

theorem dealer_21_counterexample:
  "draw_first_cards Hand_init Hand_init (map bj [''5'', ''ACE'', ''6'', ''KING'', ''10'', ''4''])
     = Inr (hand_of 11 [''5'', ''6''] 0, hand_of 21 [''ACE'', ''KING''] 1, map bj [''10'', ''4''])
   \<and> player_moves (hand_of 11 [''5'', ''6''] 0) (map bj [''10'', ''4'']) [''h'']
     = Inr (hand_of 21 [''5'', ''6'', ''10''] 0, map bj [''4''], [])
   \<and> (score (hand_of 21 [''5'', ''6'', ''10''] 0) \<ge> 22 \<or> score (hand_of 21 [''ACE'', ''KING''] 1) = 21)
   \<and> BlackjackController (map bj [''5'', ''ACE'', ''6'', ''KING'', ''10'', ''4'']) [''h'']
     = Inr \<lparr>verdict = PLAYER_WON, player_hand = hand_of 21 [''5'', ''6'', ''10''] 0,
            dealer_hand = hand_of 21 [''ACE'', ''KING''] 1, deck_left = map bj [''4''], input_left = []\<rparr>
   \<and> PLAYER_WON \<noteq> PLAYER_LOST"
  by (simp add: BlackjackController_def bj_eval)

theorem player_bust_or_dealer_21_loses_witness:
  "draw_first_cards Hand_init Hand_init (map bj [''5'', ''ACE'', ''6'', ''KING'', ''10'', ''4''])
     = Inr (hand_of 11 [''5'', ''6''] 0, hand_of 21 [''ACE'', ''KING''] 1, map bj [''10'', ''4''])
   \<and> player_moves (hand_of 11 [''5'', ''6''] 0) (map bj [''10'', ''4'']) [''s'']
     = Inr (hand_of 11 [''5'', ''6''] 0, map bj [''10'', ''4''], [])
   \<and> (score (hand_of 11 [''5'', ''6''] 0) \<ge> 22
       \<or> (score (hand_of 11 [''5'', ''6''] 0) \<noteq> 21 \<and> score (hand_of 21 [''ACE'', ''KING''] 1) = 21))
   \<and> BlackjackController (map bj [''5'', ''ACE'', ''6'', ''KING'', ''10'', ''4'']) [''s'']
     = Inr \<lparr>verdict = PLAYER_LOST, player_hand = hand_of 11 [''5'', ''6''] 0,
            dealer_hand = hand_of 21 [''ACE'', ''KING''] 1, deck_left = map bj [''10'', ''4''],
            input_left = []\<rparr>"
proof -
  have s: "score (hand_of 11 [''5'', ''6''] 0) \<ge> 22
       \<or> (score (hand_of 11 [''5'', ''6''] 0) \<noteq> 21 \<and> score (hand_of 21 [''ACE'', ''KING''] 1) = 21)"
    by (simp add: hand_of_def)
  from player_bust_or_dealer_21_loses [OF round_21_first round_21_stand s]
    round_21_first round_21_stand s
  show ?thesis by blast
qed

section \<open>Solitaire: moving, dealing, losing\<close>

subsection \<open>can_move\<close>

lemma can_move_loop_iff:
  "w \<noteq> [] \<Longrightarrow>
   can_move_loop w c tab =
     Inr ((\<exists>column \<in> set tab. column \<noteq> [] \<and> last column = c) \<and> \<bar>rank (last w) - rank c\<bar> = 1)"
  by (induction tab) auto

lemma can_move_loop_not_exposed:
  "\<not> (\<exists>column \<in> set tab. column \<noteq> [] \<and> last column = c) \<Longrightarrow> can_move_loop w c tab = Inr False"
  by (induction tab) auto

lemma can_move_loop_empty_waste:
  "\<exists>column \<in> set tab. column \<noteq> [] \<and> last column = c \<Longrightarrow> can_move_loop [] c tab = Inl IndexError"
  by (induction tab) auto

text \<open>
  Claim C4.  With a card on the waste pile, \<open>can_move\<close> returns true exactly when the card is
  the last card of a non-empty column and its rank differs by exactly 1 from the rank of the
  last waste card.  The difference is taken on the numbers, so Ace (1) and King (13) are not
  adjacent.  Every position a game reaches has a card on the waste pile, as shown further
  down; \<open>can_move_loop_empty_waste\<close> says what happens without one.
\<close>

theorem can_move_iff:
  assumes "waste s \<noteq> []"
  shows "can_move s c =
    Inr ((\<exists>column \<in> set (tableau s). column \<noteq> [] \<and> last column = c)
         \<and> \<bar>rank (last (waste s)) - rank c\<bar> = 1)"
  using assms by (simp add: can_move_def can_move_loop_iff)

theorem can_move_iff_witness:
  "waste table7 \<noteq> [] \<and> can_move table7 (pc 6) = Inr True \<and> can_move table7 (pc 8) = Inr True
   \<and> can_move table7 (pc 2) = Inr False
   \<and> can_move table7 \<lparr>rank = 8, psuit = ''HEARTS''\<rparr> = Inr False
   \<and> waste table_king \<noteq> [] \<and> can_move table_king (pc 1) = Inr False
   \<and> can_move table_king (pc 12) = Inr True
   \<and> waste table_ace \<noteq> [] \<and> can_move table_ace (pc 13) = Inr False
   \<and> can_move table_ace (pc 2) = Inr True"
proof -
  have w: "waste table7 \<noteq> []" "waste table_king \<noteq> []" "waste table_ace \<noteq> []"
    by (simp_all add: table7_def table_king_def table_ace_def)
  show ?thesis
    using can_move_iff [OF w(1), of "pc 6"] can_move_iff [OF w(1), of "pc 8"]
      can_move_iff [OF w(1), of "pc 2"] can_move_iff [OF w(1), of "\<lparr>rank = 8, psuit = ''HEARTS''\<rparr>"]
      can_move_iff [OF w(2), of "pc 1"] can_move_iff [OF w(2), of "pc 12"]
      can_move_iff [OF w(3), of "pc 13"] can_move_iff [OF w(3), of "pc 2"]
    by (simp add: table7_def table_king_def table_ace_def pc_def)
qed

subsection \<open>deal_from_stock\<close>

text \<open>
  Claim C9.  With cards in the stock, \<open>deal_from_stock\<close> takes the last one off the stock and
  puts it on top of the waste pile, and leaves the tableau alone; with an empty stock it
  returns the state as it is, and raises nothing.
\<close>

theorem deal_from_stock_effect:
  "(stock s \<noteq> [] \<longrightarrow>
      stock (deal_from_stock s) = butlast (stock s)
      \<and> waste (deal_from_stock s) = waste s @ [last (stock s)]
      \<and> last (waste (deal_from_stock s)) = last (stock s)
      \<and> stock s = stock (deal_from_stock s) @ [last (waste (deal_from_stock s))]
      \<and> tableau (deal_from_stock s) = tableau s \<and> deck (deal_from_stock s) = deck s)
   \<and> (stock s = [] \<longrightarrow> deal_from_stock s = s)"
  by (simp add: deal_from_stock_def)

theorem deal_from_stock_effect_witness:
  "stock table7 \<noteq> []
   \<and> deal_from_stock table7 = table7\<lparr>stock := [], waste := [pc 9, pc 7, pc 4]\<rparr>
   \<and> stock table_king = [] \<and> deal_from_stock table_king = table_king"
  using deal_from_stock_effect [of table7] deal_from_stock_effect [of table_king]
  by (simp add: table7_def table_king_def deal_from_stock_def)

subsection \<open>has_lost\<close>

lemma has_lost_stock: "stock s \<noteq> [] \<Longrightarrow> has_lost s = Inr None"
  by (simp add: has_lost_def)

text \<open>
  Claim C2.  With a card in the stock \<open>has_lost\<close> returns \<open>None\<close>, not \<open>False\<close>: the
  \<open>if not self.stock:\<close> has no \<open>else\<close>, against the annotation \<open>-> bool\<close>.  \<open>None\<close> is
  false as a condition (\<open>truthy\<close>), so \<open>play\<close> goes on as if the answer were \<open>False\<close>.
\<close>

theorem has_lost_with_stock_is_None:
  "stock table7 \<noteq> [] \<and> has_lost table7 = Inr None \<and> has_lost table7 \<noteq> Inr (Some False)
   \<and> \<not> truthy None \<and> has_won table7 = False"
  by (simp add: table7_def has_lost_def has_won_def truthy_def)

subsection \<open>The waste pile\<close>

lemma Solitaire_init_waste:
  "Solitaire_init cols k d = Inr s \<Longrightarrow> length (waste s) = 1"
  by (auto simp: Solitaire_init_def split: sum.splits prod.splits)

lemma apply_operation_waste:
  "apply_operation s op = Inr s' \<Longrightarrow> \<exists>ws. waste s' = waste s @ ws"
  by (cases op)
     (auto simp: move_card_def deal_from_stock_def Let_def split: sum.splits if_splits)

lemma run_waste: "run s ops = Inr s' \<Longrightarrow> \<exists>ws. waste s' = waste s @ ws"
proof (induction ops arbitrary: s)
  case Nil
  then show ?case by simp
next
  case (Cons op ops)
  from Cons.prems obtain s1 where s1: "apply_operation s op = Inr s1" "run s1 ops = Inr s'"
    by (auto split: sum.splits)
  from s1(1) obtain ws1 where "waste s1 = waste s @ ws1"
    by (blast dest: apply_operation_waste)
  moreover from s1(2) obtain ws2 where "waste s' = waste s1 @ ws2"
    by (blast dest: Cons.IH)
  ultimately show ?case by simp
qed

lemma has_lost_loop_total:
  "waste s \<noteq> [] \<Longrightarrow> \<exists>r. has_lost_loop s tab = Inr (Some r)"
  by (induction tab) (auto simp: can_move_def can_move_loop_iff)

text \<open>
  Claim C10.  After \<open>__init__\<close> the waste pile holds one card; every operation leaves the
  pile as it is or appends to it.  So in every position a game reaches the pile is not empty,
  and \<open>can_move\<close> (and \<open>has_lost\<close>, which calls it) returns without an exception.
\<close>

theorem waste_never_empty:
  assumes "Solitaire_init cols k d = Inr s0" and "run s0 ops = Inr s"
  shows "length (waste s0) = 1 \<and> (\<exists>ws. waste s = waste s0 @ ws) \<and> waste s \<noteq> []
    \<and> (\<exists>b. can_move s c = Inr b) \<and> (\<exists>r. has_lost s = Inr r)"
proof -
  from assms(1) have one: "length (waste s0) = 1"
    by (rule Solitaire_init_waste)
  from assms(2) obtain ws where ws: "waste s = waste s0 @ ws"
    by (blast dest: run_waste)
  from one ws have ne: "waste s \<noteq> []"
    by auto
  then have "\<exists>b. can_move s c = Inr b"
    by (simp add: can_move_def can_move_loop_iff)
  moreover have "\<exists>r. has_lost s = Inr r"
    using has_lost_loop_total [OF ne, of "tableau s"] by (auto simp: has_lost_def)
  ultimately show ?thesis
    using one ws ne by blast
qed

section \<open>Solitaire: the 52 cards\<close>

subsection \<open>Dealing\<close>

lemma deal_into_eq:
  "deal_into pile n d =
     (if n \<le> length d then Inr (pile @ take n d, drop n d) else Inl SupplyExhausted)"
proof (induction n arbitrary: pile d)
  case 0
  then show ?case by simp
next
  case (Suc n)
  then show ?case
    by (cases d) (simp_all add: deal_card_def)
qed

lemma deal_columns_ok:
  "n * k \<le> length d \<Longrightarrow>
   \<exists>tab'. deal_columns tab n k d = Inr (tab', drop (n * k) d)
     \<and> concat tab' = concat tab @ take (n * k) d \<and> length tab' = length tab + n"
proof (induction n arbitrary: tab d)
  case 0
  then show ?case by simp
next
  case (Suc n)
  from Suc.prems have k: "k \<le> length d" and rest: "n * k \<le> length (drop k d)"
    by auto
  from Suc.IH [OF rest, of "tab @ [take k d]"] obtain tab' where
    tab': "deal_columns (tab @ [take k d]) n k (drop k d) = Inr (tab', drop (n * k) (drop k d))"
      "concat tab' = concat (tab @ [take k d]) @ take (n * k) (drop k d)"
      "length tab' = length (tab @ [take k d]) + n"
    by blast
  have "deal_columns tab (Suc n) k d = Inr (tab', drop (Suc n * k) d)"
    using k tab'(1) by (simp add: deal_into_eq add.commute)
  moreover have "concat tab' = concat tab @ take (Suc n * k) d"
    using tab'(2) by (simp add: take_add)
  moreover have "length tab' = length tab + Suc n"
    using tab'(3) by simp
  ultimately show ?case by blast
qed

lemma Solitaire_init_ok:
  assumes "cols * k \<le> 51" and "52 \<le> length d"
  shows "\<exists>s. Solitaire_init cols k d = Inr s \<and> all_cards s = take 52 d \<and> deck s = drop 52 d
    \<and> length (tableau s) = cols"
proof -
  define n where "n = cols * k"
  from assms have n: "n \<le> 51" "n * 1 \<le> length d" "Suc n \<le> length d"
    by (simp_all add: n_def)
  from deal_columns_ok [of cols k d "[]"] assms obtain tab where
    tab: "deal_columns [] cols k d = Inr (tab, drop n d)" "concat tab = take n d"
      "length tab = cols"
    by (auto simp: n_def)
  have w: "drop n d = d ! n # drop (Suc n) d"
    using n(3) by (simp add: Cons_nth_drop_Suc)
  have st: "nat (51 - int cols * int k) = 51 - n"
    unfolding n_def by (simp add: nat_diff_distrib' flip: of_nat_mult)
  have len: "51 - n \<le> length (drop (Suc n) d)"
    using assms(2) n(1) by simp
  let ?s = "\<lparr>deck = drop (51 - n) (drop (Suc n) d), tableau = tab,
     stock = take (51 - n) (drop (Suc n) d), waste = [d ! n]\<rparr>"
  have init: "Solitaire_init cols k d = Inr ?s"
    using tab(1) len by (simp add: Solitaire_init_def deal_card_def deal_into_eq st w)
  have "52 = n + (Suc 0 + (51 - n))"
    using n(1) by simp
  then have "take 52 d = take n d @ take (Suc 0) (drop n d) @ take (51 - n) (drop (Suc n) d)"
    by (simp only: take_add drop_drop) (simp add: add.commute)
  then have all: "all_cards ?s = take 52 d"
    using w by (simp add: all_cards_def tab(2))
  have "drop (51 - n) (drop (Suc n) d) = drop 52 d"
    using n(1) by simp
  with init all tab(3) show ?thesis
    by simp
qed

lemma total_cards_size: "total_cards s = size (mset (all_cards s))"
  by (simp add: total_cards_def all_cards_def length_concat)

subsection \<open>The operations keep the cards\<close>

lemma py_index_range: "py_index xs i = Inr j \<Longrightarrow> j < length xs"
  by (auto simp: py_index_def Let_def split: if_splits)

lemma mset_butlast_last: "xs \<noteq> [] \<Longrightarrow> mset xs = add_mset (last xs) (mset (butlast xs))"
  by (induction xs) auto

lemma mset_concat_butlast:
  assumes "i < length xss" and "xss ! i \<noteq> []"
  shows "mset (concat xss) = add_mset (last (xss ! i)) (mset (concat (xss[i := butlast (xss ! i)])))"
proof -
  have xss: "xss = take i xss @ (xss ! i) # drop (Suc i) xss"
    using assms(1) by (simp add: id_take_nth_drop)
  have upd: "xss[i := butlast (xss ! i)] = take i xss @ butlast (xss ! i) # drop (Suc i) xss"
    using assms(1) by (simp add: upd_conv_take_nth_drop)
  have "mset (concat xss) = mset (concat (take i xss)) + mset (xss ! i)
      + mset (concat (drop (Suc i) xss))"
    by (subst xss) simp
  also have "\<dots> = add_mset (last (xss ! i)) (mset (concat (take i xss))
      + mset (butlast (xss ! i)) + mset (concat (drop (Suc i) xss)))"
    by (simp add: mset_butlast_last [OF assms(2)])
  also have "mset (concat (take i xss)) + mset (butlast (xss ! i))
      + mset (concat (drop (Suc i) xss)) = mset (concat (xss[i := butlast (xss ! i)]))"
    by (simp add: upd)
  finally show ?thesis .
qed

lemma move_card_mset:
  assumes "move_card s col = Inr s'"
  shows "mset (all_cards s') = mset (all_cards s)"
proof -
  from assms obtain i where i: "py_index (tableau s) col = Inr i"
    and ne: "tableau s ! i \<noteq> []"
    and s': "s' = s\<lparr>waste := waste s @ [last (tableau s ! i)],
        tableau := (tableau s)[i := butlast (tableau s ! i)]\<rparr>"
    by (auto simp: move_card_def Let_def split: sum.splits if_splits)
  from i have "i < length (tableau s)"
    by (rule py_index_range)
  from mset_concat_butlast [OF this ne] show ?thesis
    by (simp add: s' all_cards_def)
qed

lemma deal_from_stock_mset: "mset (all_cards (deal_from_stock s)) = mset (all_cards s)"
proof (cases "stock s = []")
  case True
  then show ?thesis by (simp add: deal_from_stock_def)
next
  case False
  from mset_butlast_last [OF this] show ?thesis
    using False by (simp add: deal_from_stock_def all_cards_def)
qed

lemma apply_operation_mset:
  "apply_operation s op = Inr s' \<Longrightarrow> mset (all_cards s') = mset (all_cards s)"
proof (cases op)
  case (MoveCard col)
  then show "apply_operation s op = Inr s' \<Longrightarrow> ?thesis"
    by (simp add: move_card_mset)
next
  case DealFromStock
  then show "apply_operation s op = Inr s' \<Longrightarrow> ?thesis"
    by (auto simp: deal_from_stock_mset)
qed (auto split: sum.splits)

lemma run_mset: "run s ops = Inr s' \<Longrightarrow> mset (all_cards s') = mset (all_cards s)"
proof (induction ops arbitrary: s)
  case Nil
  then show ?case by simp
next
  case (Cons op ops)
  from Cons.prems obtain s1 where s1: "apply_operation s op = Inr s1" "run s1 ops = Inr s'"
    by (auto split: sum.splits)
  from Cons.IH [OF s1(2)] apply_operation_mset [OF s1(1)] show ?case
    by simp
qed

text \<open>
  Claim C7.  From a deck of 52 cards, \<open>__init__\<close> (7 columns of 1 card) succeeds and deals
  every card: tableau, waste and stock hold the 52 cards of the deck, and the deck is left
  empty.  Every sequence of operations that does not raise keeps the same cards, as a
  multiset: the count stays 52, and cards that were all different stay all different, so
  none is duplicated and none is lost.
\<close>

theorem solitaire_keeps_52_cards:
  assumes "length d = 52"
  shows "\<exists>s0. Solitaire_init columns cards_in_column d = Inr s0
    \<and> total_cards s0 = 52 \<and> all_cards s0 = d \<and> deck s0 = []
    \<and> (\<forall>ops s. run s0 ops = Inr s \<longrightarrow>
          total_cards s = 52 \<and> mset (all_cards s) = mset d
          \<and> (distinct d \<longrightarrow> distinct (all_cards s)))"
proof -
  from assms Solitaire_init_ok [of columns cards_in_column d] obtain s0 where
    s0: "Solitaire_init columns cards_in_column d = Inr s0" "all_cards s0 = d" "deck s0 = []"
    by (auto simp: columns_def cards_in_column_def)
  have later: "total_cards s = 52 \<and> mset (all_cards s) = mset d
      \<and> (distinct d \<longrightarrow> distinct (all_cards s))" if "run s0 ops = Inr s" for ops s
  proof -
    from that have m: "mset (all_cards s) = mset d"
      using s0(2) by (simp add: run_mset)
    have "total_cards s = 52"
      using assms by (simp add: total_cards_size m)
    moreover from m have "distinct d \<longrightarrow> distinct (all_cards s)"
      using mset_eq_imp_distinct_iff by blast
    ultimately show ?thesis using m by simp
  qed
  have "total_cards s0 = 52"
    using s0(2) assms by (simp add: total_cards_size)
  with s0 later show ?thesis
    by blast
qed

subsection \<open>A game from the sample deck\<close>

lemma length_deck52: "length deck52 = 52"
  by (simp add: deck52_def)

lemma init52: "Solitaire_init columns cards_in_column deck52 = Inr start52"
  by code_simp

lemma run52:
  "run start52 [CanMove (deck52 ! 6), MoveCard (- 1), DealFromStock, HasWon, HasLost] = Inr after52"
  by code_simp

lemma total52: "total_cards after52 = 52"
  by code_simp

lemma distinct_deck52: "distinct deck52"
  by code_simp

theorem solitaire_keeps_52_cards_witness:
  "length deck52 = 52
   \<and> Solitaire_init columns cards_in_column deck52 = Inr start52
   \<and> total_cards start52 = 52 \<and> all_cards start52 = deck52 \<and> deck start52 = []
   \<and> run start52 [CanMove (deck52 ! 6), MoveCard (- 1), DealFromStock, HasWon, HasLost]
       = Inr after52
   \<and> total_cards after52 = 52 \<and> mset (all_cards after52) = mset deck52
   \<and> distinct deck52 \<and> distinct (all_cards after52)"
proof -
  from solitaire_keeps_52_cards [OF length_deck52] obtain s0 where
    s0: "Solitaire_init columns cards_in_column deck52 = Inr s0"
      "total_cards s0 = 52" "all_cards s0 = deck52" "deck s0 = []"
    and later: "\<And>ops s. run s0 ops = Inr s \<Longrightarrow>
      total_cards s = 52 \<and> mset (all_cards s) = mset deck52
      \<and> (distinct deck52 \<longrightarrow> distinct (all_cards s))"
    by blast
  from s0(1) have eq: "s0 = start52"
    by (simp add: init52)
  have first: "total_cards start52 = 52" "all_cards start52 = deck52" "deck start52 = []"
    using s0(2-4) unfolding eq by blast+
  from later [of _ after52] run52 have
    "total_cards after52 = 52 \<and> mset (all_cards after52) = mset deck52
      \<and> (distinct deck52 \<longrightarrow> distinct (all_cards after52))"
    unfolding eq by blast
  then have "total_cards after52 = 52" "mset (all_cards after52) = mset deck52"
    "distinct (all_cards after52)"
    using distinct_deck52 by blast+
  note facts = this first length_deck52 init52 run52 distinct_deck52
  show ?thesis
    by (intro conjI) (rule facts)+
qed

lemma can_move_after52: "can_move after52 (deck52 ! 5) = Inr False"
  by code_simp

theorem waste_never_empty_witness:
  "Solitaire_init columns cards_in_column deck52 = Inr start52
   \<and> run start52 [CanMove (deck52 ! 6), MoveCard (- 1), DealFromStock, HasWon, HasLost]
       = Inr after52
   \<and> length (waste start52) = 1
   \<and> waste after52 = waste start52 @ [deck52 ! 6, deck52 ! 51]
   \<and> waste after52 \<noteq> []
   \<and> can_move after52 (deck52 ! 5) = Inr False
   \<and> has_lost after52 = Inr None"
proof -
  from waste_never_empty [OF init52 run52, of "deck52 ! 5"]
  have "length (waste start52) = 1" and "waste after52 \<noteq> []"
    by simp_all
  moreover have "waste after52 = waste start52 @ [deck52 ! 6, deck52 ! 51]"
    by (simp add: after52_def start52_def)
  moreover have "has_lost after52 = Inr None"
    by code_simp
  ultimately show ?thesis
    using init52 run52 can_move_after52 by simp
qed

end
